theory Spec2Isabelle
  imports Complex_Main "HOL-Library.Word" "HOL-Library.Char_ord" "HOL-Library.List_Lexorder"
    "HOL-Library.Multiset"
begin

text \<open>
  A model of \<^verbatim>\<open>dynophore_feature_analysis.py\<close>: the loop that reads the feature tables
  (lines 48 to 69), the merge with the RMSD series (lines 71 to 78), the statistics of the
  hypotheses (lines 80 to 104) and the selection for the charts (line 135). What the
  script leaves to pandas, numpy and the file system enters as data or as a parameter:
  the outcome of reading one table, the parsed rows of the RMSD file with what
  \<^verbatim>\<open>astype\<close> makes of each cell, and the order that a sort gives to equal keys. Floats
  are real numbers here, strings are lists of bytes.
\<close>

section \<open>Configuration parameters\<close>

text \<open>
  \<^verbatim>\<open>top_n = 10\<close> and \<^verbatim>\<open>exclude_lengths = [1, 2, 3]\<close> of the script. The frame
  identifier removed from the trajectory is the literal 5002 of the script.
\<close>

definition top_n :: nat where
  "top_n = 10"

definition exclude_lengths :: "nat list" where
  "exclude_lengths = [1, 2, 3]"

section \<open>Feature table parsing\<close>

text \<open>
  Strings are byte strings here; \<^verbatim>\<open>\d\<close> is taken on the ASCII digits.
\<close>

definition is_digit :: "char \<Rightarrow> bool" where
  "is_digit c = (c \<in> set ''0123456789'')"

text \<open>\<^verbatim>\<open>re.sub(r'\d+', '', feat)\<close>\<close>

definition strip_digits :: "string \<Rightarrow> string" where
  "strip_digits feat = filter (\<lambda>c. \<not> is_digit c) feat"

text \<open>\<^verbatim>\<open>''.join([re.sub(r'\d+', '', feat) for feat in features_raw])\<close>\<close>

definition features_clean :: "string list \<Rightarrow> string" where
  "features_clean features_raw = concat (map strip_digits features_raw)"

definition table_suffix :: string where
  "table_suffix = ''_hypo_features_table.csv''"

text \<open>
  \<^verbatim>\<open>re.match(r'\d+_hypo_features_table\.csv$', f)\<close>: one or more digits from the start
  of the name, the literal suffix, then the end of the name (\<^verbatim>\<open>$\<close> also accepts one
  final newline).
\<close>

definition re_match_table :: "string \<Rightarrow> bool" where
  "re_match_table f =
     (let ds = takeWhile is_digit f; rest = dropWhile is_digit f
      in ds \<noteq> [] \<and> (rest = table_suffix \<or> rest = table_suffix @ [CHR 0x0A]))"

text \<open>
  \<^verbatim>\<open>re.search(r'(\d+)_hypo_features_table\.csv', name)\<close>: the leftmost position where a
  run of digits is followed by the suffix; the result is group 1.
\<close>

definition match_here :: "string \<Rightarrow> string option" where
  "match_here s =
     (let ds = takeWhile is_digit s; rest = dropWhile is_digit s
      in if ds \<noteq> [] \<and> take (length table_suffix) rest = table_suffix then Some ds else None)"

fun re_search_table :: "string \<Rightarrow> string option" where
  "re_search_table [] = None"
| "re_search_table (c # cs) =
     (case match_here (c # cs) of Some ds \<Rightarrow> Some ds | None \<Rightarrow> re_search_table cs)"

text \<open>\<^verbatim>\<open>int(match.group(1))\<close> on a string of decimal digits.\<close>

definition int_of_digits :: "string \<Rightarrow> int" where
  "int_of_digits ds = foldl (\<lambda>n c. 10 * n + (of_char c - 48)) 0 ds"

text \<open>\<^verbatim>\<open>os.path.join\<close> and \<^verbatim>\<open>os.path.basename\<close> (POSIX).\<close>

definition path_join :: "string \<Rightarrow> string \<Rightarrow> string" where
  "path_join a b =
     (if b \<noteq> [] \<and> hd b = CHR ''/'' then b
      else if a = [] \<or> last a = CHR ''/'' then a @ b
      else a @ ''/'' @ b)"

definition basename :: "string \<Rightarrow> string" where
  "basename p = rev (takeWhile (\<lambda>c. c \<noteq> CHR ''/'') (rev p))"

text \<open>
  \<^verbatim>\<open>csv_files\<close>: the names of \<^verbatim>\<open>os.listdir(csv_dir)\<close> that match, joined to the
  directory, sorted.
\<close>

definition csv_files :: "string \<Rightarrow> string list \<Rightarrow> string list" where
  "csv_files csv_dir listing = sort (map (path_join csv_dir) (filter re_match_table listing))"

text \<open>
  The state of the loop at lines 54 to 69: the dictionary and what has been printed.
  The body of the \<^verbatim>\<open>try\<close> up to \<^verbatim>\<open>features_raw\<close> (opening the file, choosing the
  delimiter, \<^verbatim>\<open>pd.read_csv\<close>, choosing the column) is the parameter \<open>read_features\<close>:
  \<open>Inr features_raw\<close> when it succeeds, \<open>Inl e\<close> with the text of the exception when
  it raises.
\<close>

record loader_state =
  frame_feature_map :: "int \<rightharpoonup> string"
  printed :: "string list"

definition loader_init :: loader_state where
  "loader_init = \<lparr>frame_feature_map = Map.empty, printed = []\<rparr>"

fun load_tables ::
  "(string \<Rightarrow> string + string list) \<Rightarrow> string list \<Rightarrow> loader_state \<Rightarrow> loader_state" where
  "load_tables read_features [] st = st"
| "load_tables read_features (csv_path # rest) st =
     (case re_search_table (basename csv_path) of
        None \<Rightarrow> load_tables read_features rest st
      | Some ds \<Rightarrow>
          (let frame_id = int_of_digits ds in
           case read_features csv_path of
             Inr features_raw \<Rightarrow>
               load_tables read_features rest
                 (st\<lparr>frame_feature_map :=
                      (frame_feature_map st)(frame_id \<mapsto> features_clean features_raw)\<rparr>)
           | Inl e \<Rightarrow>
               load_tables read_features rest
                 (st\<lparr>printed := printed st @ [''Error reading '' @ csv_path @ '': '' @ e]\<rparr>)))"

section \<open>RMSD file parsing\<close>

text \<open>
  \<^verbatim>\<open>astype(int)\<close> gives the column the dtype int64, so \<^verbatim>\<open>Frame\<close> and \<^verbatim>\<open>Frame_ID\<close>
  are 64-bit two's complement values: \<open>+\<close> on them wraps, \<open>sint\<close> reads them.
  RMSD values are floats, idealised as reals (no NaN, no rounding of arithmetic).
\<close>

type_synonym int64 = "64 word"

datatype failure =
  AstypeError string
  | NoMatchedHypotheses
  | IdxminEmpty
  | LocError

text \<open>
  A parsed row of \<^verbatim>\<open>trajrmsd.dat\<close> as \<^verbatim>\<open>pd.read_csv\<close> returns it (comment lines are
  gone, rows are in file order). A cell is given by what \<^verbatim>\<open>astype\<close> makes of it:
  \<open>Inr v\<close> when the conversion yields \<open>v\<close>, \<open>Inl msg\<close> when it raises.
\<close>

record raw_row =
  Frame_cell :: "string + int64"
  RMSD_cell :: "string + real"

text \<open>A row of \<^verbatim>\<open>rmsd_df\<close>, with its index label (\<^verbatim>\<open>read_csv\<close> numbers the rows from 0).\<close>

record frame_record =
  Index :: nat
  Frame :: int64
  RMSD :: real
  Frame_ID :: int64
  Features :: string

definition read_csv :: "raw_row list \<Rightarrow> (nat \<times> raw_row) list" where
  "read_csv rows = zip [0..<length rows] rows"

text \<open>\<^verbatim>\<open>rmsd_df.iloc[1:]\<close>\<close>

definition iloc_from_1 :: "'a list \<Rightarrow> 'a list" where
  "iloc_from_1 df = drop 1 df"

text \<open>\<^verbatim>\<open>astype\<close> on a column: the first cell that does not convert raises.\<close>

fun astype :: "(string + 'v) list \<Rightarrow> string + 'v list" where
  "astype [] = Inr []"
| "astype (Inl e # cs) = Inl e"
| "astype (Inr v # cs) = (case astype cs of Inl e \<Rightarrow> Inl e | Inr vs \<Rightarrow> Inr (v # vs))"

text \<open>\<^verbatim>\<open>rmsd_df['Frame_ID'].map(frame_feature_map).fillna('-')\<close> for one frame.\<close>

definition lookup_features :: "(int \<rightharpoonup> string) \<Rightarrow> int64 \<Rightarrow> string" where
  "lookup_features feature_map fid =
     (case feature_map (sint fid) of None \<Rightarrow> ''-'' | Some s \<Rightarrow> s)"

definition add_frame_id :: "(nat \<times> int64 \<times> real) list \<Rightarrow> (nat \<times> int64 \<times> real \<times> int64) list" where
  "add_frame_id df = map (\<lambda>(i, f, r). (i, f, r, f + 1)) df"

definition drop_sentinel :: "(nat \<times> int64 \<times> real \<times> int64) list \<Rightarrow> (nat \<times> int64 \<times> real \<times> int64) list" where
  "drop_sentinel df = filter (\<lambda>(i, f, r, fid). fid \<noteq> 5002) df"

definition add_features ::
  "(int \<rightharpoonup> string) \<Rightarrow> (nat \<times> int64 \<times> real \<times> int64) list \<Rightarrow> frame_record list" where
  "add_features feature_map df =
     map (\<lambda>(i, f, r, fid).
       \<lparr>Index = i, Frame = f, RMSD = r, Frame_ID = fid,
        Features = lookup_features feature_map fid\<rparr>) df"

text \<open>Lines 72 to 78 of the script. A failing \<^verbatim>\<open>astype\<close> ends the run.\<close>

definition rmsd_df :: "(int \<rightharpoonup> string) \<Rightarrow> raw_row list \<Rightarrow> failure + frame_record list" where
  "rmsd_df feature_map rows =
     (let df = iloc_from_1 (read_csv rows) in
      case astype (map (\<lambda>(i, row). Frame_cell row) df) of
        Inl e \<Rightarrow> Inl (AstypeError e)
      | Inr frames \<Rightarrow>
          (case astype (map (\<lambda>(i, row). RMSD_cell row) df) of
             Inl e \<Rightarrow> Inl (AstypeError e)
           | Inr rmsds \<Rightarrow>
               Inr (add_features feature_map
                     (drop_sentinel (add_frame_id (zip (map fst df) (zip frames rmsds)))))))"

section \<open>Hypothesis statistics\<close>

text \<open>
  \<^verbatim>\<open>value_counts()\<close> and \<^verbatim>\<open>sort_values(by='Count', ascending=False)\<close> order rows by a
  key with pandas' default \<^verbatim>\<open>kind='quicksort'\<close>, which pandas documents as not
  stable. The order is therefore a parameter: an \<open>indexer\<close> maps the key column to
  the positions of the rows in output order, and \<open>sorts_descending\<close> is all that the
  library promises about it.
\<close>

type_synonym indexer = "nat list \<Rightarrow> nat list"

definition sorts_descending :: "indexer \<Rightarrow> bool" where
  "sorts_descending order =
     (\<forall>ks. distinct (order ks) \<and> set (order ks) = {0..<length ks} \<and>
           sorted_wrt (\<lambda>a b. a \<ge> b) (map (\<lambda>i. ks ! i) (order ks)))"

definition take_rows :: "'a list \<Rightarrow> nat list \<Rightarrow> 'a list" where
  "take_rows df ix = map (\<lambda>i. df ! i) ix"

definition sort_values_desc :: "indexer \<Rightarrow> ('a \<Rightarrow> nat) \<Rightarrow> 'a list \<Rightarrow> 'a list" where
  "sort_values_desc order key df = take_rows df (order (map key df))"

text \<open>The distinct values in order of first appearance.\<close>

definition unique :: "'a list \<Rightarrow> 'a list" where
  "unique xs = rev (remdups (rev xs))"

definition value_counts :: "indexer \<Rightarrow> string list \<Rightarrow> (string \<times> nat) list" where
  "value_counts order xs =
     sort_values_desc order snd (map (\<lambda>s. (s, count_list xs s)) (unique xs))"

record count_row =
  fc_Features :: string
  fc_Count :: nat
  fc_Percent :: real
  fc_Length :: nat

definition total_frames :: "frame_record list \<Rightarrow> nat" where
  "total_frames df = length df"

text \<open>Lines 82 to 85.\<close>

definition feature_counts :: "indexer \<Rightarrow> frame_record list \<Rightarrow> count_row list" where
  "feature_counts order df =
     map (\<lambda>(feat, n).
           \<lparr>fc_Features = feat, fc_Count = n,
            fc_Percent = 100 * real n / real (total_frames df),
            fc_Length = length feat\<rparr>)
         (value_counts order (map Features (filter (\<lambda>r. Features r \<noteq> ''-'') df)))"

text \<open>
  \<^verbatim>\<open>round(x, ndigits)\<close>, idealised on the reals: to the nearest multiple of
  \<open>10 ^ -ndigits\<close>, a tie going to the even one.
\<close>

definition rint :: "real \<Rightarrow> int" where
  "rint x =
     (let f = \<lfloor>x\<rfloor>; d = x - of_int f
      in if d < 1 / 2 then f else if 1 / 2 < d then f + 1 else if even f then f else f + 1)"

definition py_round :: "real \<Rightarrow> nat \<Rightarrow> real" where
  "py_round x ndigits = of_int (rint (x * 10 ^ ndigits)) / 10 ^ ndigits"

text \<open>
  \<^verbatim>\<open>subset['RMSD'].idxmin()\<close>: the index label of the first occurrence of the minimum;
  it raises on an empty column.
\<close>

fun argmin_scan :: "('a \<Rightarrow> real) \<Rightarrow> 'a \<Rightarrow> 'a list \<Rightarrow> 'a" where
  "argmin_scan v best [] = best"
| "argmin_scan v best (x # xs) = argmin_scan v (if v x < v best then x else best) xs"

definition idxmin :: "(nat \<times> real) list \<Rightarrow> failure + nat" where
  "idxmin col = (case col of [] \<Rightarrow> Inl IdxminEmpty | x # xs \<Rightarrow> Inr (fst (argmin_scan snd x xs)))"

text \<open>
  \<^verbatim>\<open>subset.loc[label]\<close> used as a single row: the label has to be there, once.
\<close>

definition loc :: "frame_record list \<Rightarrow> nat \<Rightarrow> failure + frame_record" where
  "loc df label =
     (case filter (\<lambda>r. Index r = label) df of [r] \<Rightarrow> Inr r | _ \<Rightarrow> Inl LocError)"

record summary_record =
  s_Features :: string
  Lowest_RMSD :: real
  s_Frame :: int
  Count :: nat
  Length :: nat
  Percent :: real

text \<open>The body of the loop at lines 92 to 103.\<close>

definition summarise :: "frame_record list \<Rightarrow> count_row \<Rightarrow> failure + summary_record" where
  "summarise df row =
     (let feat = fc_Features row;
          subset = filter (\<lambda>r. Features r = feat) df
      in case idxmin (map (\<lambda>r. (Index r, RMSD r)) subset) of
           Inl e \<Rightarrow> Inl e
         | Inr label \<Rightarrow>
             (case loc subset label of
                Inl e \<Rightarrow> Inl e
              | Inr min_row \<Rightarrow>
                  Inr \<lparr>s_Features = feat,
                       Lowest_RMSD = py_round (RMSD min_row) 3,
                       s_Frame = sint (Frame_ID min_row),
                       Count = fc_Count row,
                       Length = length feat,
                       Percent = py_round (fc_Percent row) 1\<rparr>))"

fun collect :: "('a \<Rightarrow> failure + 'b) \<Rightarrow> 'a list \<Rightarrow> failure + 'b list" where
  "collect f [] = Inr []"
| "collect f (x # xs) =
     (case f x of
        Inl e \<Rightarrow> Inl e
      | Inr y \<Rightarrow> (case collect f xs of Inl e \<Rightarrow> Inl e | Inr ys \<Rightarrow> Inr (y # ys)))"

text \<open>Lines 87 to 103: the script exits when \<^verbatim>\<open>feature_counts\<close> is empty.\<close>

definition summary_records :: "indexer \<Rightarrow> frame_record list \<Rightarrow> failure + summary_record list" where
  "summary_records order df =
     (if feature_counts order df = [] then Inl NoMatchedHypotheses
      else collect (summarise df) (feature_counts order df))"

text \<open>Line 104. \<open>vc\<close> is the order inside \<^verbatim>\<open>value_counts\<close>, \<open>sv\<close> the one of \<^verbatim>\<open>sort_values\<close>.\<close>

definition summary_df ::
  "indexer \<Rightarrow> indexer \<Rightarrow> frame_record list \<Rightarrow> failure + summary_record list" where
  "summary_df vc sv df =
     (case summary_records vc df of
        Inl e \<Rightarrow> Inl e
      | Inr records \<Rightarrow> Inr (sort_values_desc sv Count records))"

section \<open>Ranking and selection\<close>

text \<open>
  \<^verbatim>\<open>nlargest(n, 'Percent')\<close> with the default \<^verbatim>\<open>keep='first'\<close>: the first \<open>n\<close> rows in
  descending order of the column, earlier rows first among equal values.
\<close>

definition nlargest :: "nat \<Rightarrow> ('a \<Rightarrow> real) \<Rightarrow> 'a list \<Rightarrow> 'a list" where
  "nlargest n key df = take n (sort_key (\<lambda>r. - key r) df)"

text \<open>Line 135.\<close>

definition plot_df_of :: "nat \<Rightarrow> nat list \<Rightarrow> summary_record list \<Rightarrow> summary_record list" where
  "plot_df_of n excluded df = nlargest n Percent (filter (\<lambda>r. Length r \<notin> set excluded) df)"

definition plot_df :: "summary_record list \<Rightarrow> summary_record list" where
  "plot_df df = plot_df_of top_n exclude_lengths df"

text \<open>Two orders that meet \<open>sorts_descending\<close>: one keeps equal keys in place, one reverses them.\<close>

definition stable_order :: indexer where
  "stable_order ks = map snd (rev (sort_key fst (rev (zip ks [0..<length ks]))))"

definition reversing_order :: indexer where
  "reversing_order ks = map snd (rev (sort_key fst (zip ks [0..<length ks])))"

section \<open>Auxiliary notions for the proofs\<close>

text \<open>The row of \<^verbatim>\<open>rmsd_df\<close> made from a parsed row, and the test of line 77.\<close>

definition mk_record :: "(int \<rightharpoonup> string) \<Rightarrow> nat \<times> raw_row \<Rightarrow> frame_record" where
  "mk_record m = (\<lambda>(i, row).
     \<lparr>Index = i, Frame = projr (Frame_cell row), RMSD = projr (RMSD_cell row),
      Frame_ID = projr (Frame_cell row) + 1,
      Features = lookup_features m (projr (Frame_cell row) + 1)\<rparr>)"

definition kept :: "nat \<times> raw_row \<Rightarrow> bool" where
  "kept = (\<lambda>(i, row). projr (Frame_cell row) + 1 \<noteq> (5002 :: int64))"

text \<open>
  The rows of a group, the first of them with the least RMSD, and the summary row that
  the loop at lines 92 to 103 builds from a row of \<^verbatim>\<open>feature_counts\<close> when nothing raises.
\<close>

definition members :: "frame_record list \<Rightarrow> string \<Rightarrow> frame_record list" where
  "members df feat = filter (\<lambda>r. Features r = feat) df"



definition unmatched :: "frame_record list \<Rightarrow> frame_record list" where
  "unmatched df = filter (\<lambda>r. Features r = ''-'') df"

text \<open>
  The frame index that the loop derives from a path (if the name matches), and the test
  that a source is one the loop stores an entry for.
\<close>

definition frame_key :: "string \<Rightarrow> int option" where
  "frame_key csv_path = map_option int_of_digits (re_search_table (basename csv_path))"

definition parsed_ok :: "(string \<Rightarrow> string + string list) \<Rightarrow> string \<Rightarrow> bool" where
  "parsed_ok read_features csv_path = (frame_key csv_path \<noteq> None \<and> \<not> isl (read_features csv_path))"

definition parse_failed :: "(string \<Rightarrow> string + string list) \<Rightarrow> string \<Rightarrow> bool" where
  "parse_failed read_features csv_path = (frame_key csv_path \<noteq> None \<and> isl (read_features csv_path))"

definition warning :: "(string \<Rightarrow> string + string list) \<Rightarrow> string \<Rightarrow> string" where
  "warning read_features csv_path =
     ''Error reading '' @ csv_path @ '': '' @ projl (read_features csv_path)"

definition signature_of :: "(string \<Rightarrow> string + string list) \<Rightarrow> string \<Rightarrow> string" where
  "signature_of read_features csv_path = features_clean (projr (read_features csv_path))"

section \<open>Example inputs\<close>

definition ex_map :: "int \<rightharpoonup> string" where
  "ex_map = [1 \<mapsto> ''HBHB'', 2 \<mapsto> ''HB'', 3 \<mapsto> ''ARHB'', 4 \<mapsto> ''HB'']"

definition ex_rows :: "raw_row list" where
  "ex_rows =
     [\<lparr>Frame_cell = Inl ''invalid literal for int()'', RMSD_cell = Inl ''could not convert''\<rparr>,
      \<lparr>Frame_cell = Inr 0, RMSD_cell = Inr (5 / 10)\<rparr>,
      \<lparr>Frame_cell = Inr 1, RMSD_cell = Inr (3 / 10)\<rparr>,
      \<lparr>Frame_cell = Inr 2, RMSD_cell = Inr (9876 / 10000)\<rparr>,
      \<lparr>Frame_cell = Inr 3, RMSD_cell = Inr (3 / 10)\<rparr>,
      \<lparr>Frame_cell = Inr 5001, RMSD_cell = Inr (3 / 10)\<rparr>,
      \<lparr>Frame_cell = Inr 7, RMSD_cell = Inr (12345 / 10000)\<rparr>]"

definition ex_df :: "frame_record list" where
  "ex_df =
     [\<lparr>Index = 1, Frame = 0, RMSD = 5 / 10, Frame_ID = 1, Features = ''HBHB''\<rparr>,
      \<lparr>Index = 2, Frame = 1, RMSD = 3 / 10, Frame_ID = 2, Features = ''HB''\<rparr>,
      \<lparr>Index = 3, Frame = 2, RMSD = 9876 / 10000, Frame_ID = 3, Features = ''ARHB''\<rparr>,
      \<lparr>Index = 4, Frame = 3, RMSD = 3 / 10, Frame_ID = 4, Features = ''HB''\<rparr>,
      \<lparr>Index = 6, Frame = 7, RMSD = 12345 / 10000, Frame_ID = 8, Features = ''-''\<rparr>]"

definition ex_counts :: "count_row list" where
  "ex_counts =
     [\<lparr>fc_Features = ''HB'', fc_Count = 2, fc_Percent = 40, fc_Length = 2\<rparr>,
      \<lparr>fc_Features = ''HBHB'', fc_Count = 1, fc_Percent = 20, fc_Length = 4\<rparr>,
      \<lparr>fc_Features = ''ARHB'', fc_Count = 1, fc_Percent = 20, fc_Length = 4\<rparr>]"

definition ex_HB :: summary_record where
  "ex_HB = \<lparr>s_Features = ''HB'', Lowest_RMSD = 3 / 10, s_Frame = 2, Count = 2, Length = 2,
            Percent = 40\<rparr>"

definition ex_HBHB :: summary_record where
  "ex_HBHB = \<lparr>s_Features = ''HBHB'', Lowest_RMSD = 5 / 10, s_Frame = 1, Count = 1, Length = 4,
              Percent = 20\<rparr>"

definition ex_ARHB :: summary_record where
  "ex_ARHB = \<lparr>s_Features = ''ARHB'', Lowest_RMSD = 988 / 1000, s_Frame = 3, Count = 1, Length = 4,
              Percent = 20\<rparr>"

text \<open>A directory with two tables and a file that cannot be read, and one with two names for frame 1.\<close>

definition ex_dir :: string where
  "ex_dir = ''PROCESSED_FILES''"

definition ex_listing :: "string list" where
  "ex_listing = [''3_hypo_features_table.csv'', ''notes.txt'', ''1_hypo_features_table.csv'',
                 ''2_hypo_features_table.csv'']"

definition ex_read :: "string \<Rightarrow> string + string list" where
  "ex_read p =
     (if p = ''PROCESSED_FILES/1_hypo_features_table.csv'' then Inr [''HB1'', ''HB2'']
      else if p = ''PROCESSED_FILES/3_hypo_features_table.csv'' then Inr [''AR1'', ''HB4'']
      else Inl ''No columns to parse from file'')"

definition dup_listing :: "string list" where
  "dup_listing = [''1_hypo_features_table.csv'', ''01_hypo_features_table.csv'']"

definition dup_read :: "string \<Rightarrow> string + string list" where
  "dup_read p = Inr [''HB1'']"

text \<open>A trajectory whose second row has the largest frame counter of int64.\<close>

definition max_rows :: "raw_row list" where
  "max_rows =
     [\<lparr>Frame_cell = Inr 0, RMSD_cell = Inr 0\<rparr>,
      \<lparr>Frame_cell = Inr 9223372036854775807, RMSD_cell = Inr (5 / 10)\<rparr>]"

definition max_rec :: frame_record where
  "max_rec = \<lparr>Index = 1, Frame = 9223372036854775807, RMSD = 5 / 10,
              Frame_ID = 9223372036854775808, Features = ''-''\<rparr>"

section \<open>Properties of the trajectory merger\<close>

lemma astype_Inr_D: "astype cs = Inr vs \<Longrightarrow> cs = map Inr vs"
  by (induction cs arbitrary: vs rule: astype.induct) (auto split: sum.splits)

lemma astype_map_Inr: "astype (map Inr vs) = Inr vs"
  by (induction vs) auto

lemma merge_core:
  "map (\<lambda>(i, row). Frame_cell row) df = map Inr frames \<Longrightarrow>
   map (\<lambda>(i, row). RMSD_cell row) df = map Inr rmsds \<Longrightarrow>
   add_features m (drop_sentinel (add_frame_id (zip (map fst df) (zip frames rmsds))))
     = map (mk_record m) (filter kept df)"
proof (induction df arbitrary: frames rmsds)
  case Nil
  then show ?case by (simp add: add_features_def drop_sentinel_def add_frame_id_def)
next
  case (Cons a df)
  obtain f fs where fs: "frames = f # fs" using Cons.prems(1) by (cases frames) auto
  obtain r rs where rs: "rmsds = r # rs" using Cons.prems(2) by (cases rmsds) auto
  obtain i row where a: "a = (i, row)" by (cases a)
  have ih: "add_features m (drop_sentinel (add_frame_id (zip (map fst df) (zip fs rs)))) = map (mk_record m) (filter kept df)"
    using Cons.IH[of fs rs] Cons.prems fs rs by simp
  have c: "Frame_cell row = Inr f" "RMSD_cell row = Inr r" using Cons.prems fs rs a by auto
  show ?case using ih c
    by (simp add: fs rs a add_features_def drop_sentinel_def add_frame_id_def mk_record_def kept_def)
qed

lemma read_csv_Cons: "iloc_from_1 (read_csv (r # rs)) = zip [1..<Suc (length rs)] rs"
  by (simp add: iloc_from_1_def read_csv_def upt_conv_Cons del: upt_Suc)

lemma set_drop1_read_csv: "set (iloc_from_1 (read_csv rows)) = {(k, rows ! k) | k. 0 < k \<and> k < length rows}"
proof (cases rows)
  case Nil
  then show ?thesis by (simp add: read_csv_def iloc_from_1_def)
next
  case (Cons r rs)
  have "set (zip [1..<Suc (length rs)] rs) = {(Suc i, rs ! i) | i. i < length rs}"
  proof -
    have nth: "\<And>i. i < length rs \<Longrightarrow> [1..<Suc (length rs)] ! i = Suc i"
      by (simp del: upt_Suc)
    show ?thesis
      unfolding set_zip using nth by (auto simp del: upt_Suc One_nat_def) (metis nth)
  qed
  also have "\<dots> = {(k, (r # rs) ! k) | k. 0 < k \<and> k < length (r # rs)}"
    by (auto simp: less_Suc_eq_0_disj gr0_conv_Suc)
  finally show ?thesis using Cons by (simp only: read_csv_Cons)
qed

lemma rmsd_df_Inr:
  assumes "rmsd_df m rows = Inr df"
  shows "df = map (mk_record m) (filter kept (iloc_from_1 (read_csv rows)))"
  using assms unfolding rmsd_df_def Let_def
  by (auto split: sum.splits dest!: astype_Inr_D simp: merge_core)

lemma rmsd_df_cells:
  assumes "rmsd_df m rows = Inr df" "0 < k" "k < length rows"
  shows "Frame_cell (rows ! k) = Inr (projr (Frame_cell (rows ! k)))"
    and "RMSD_cell (rows ! k) = Inr (projr (RMSD_cell (rows ! k)))"
proof -
  obtain frames rmsds where
    f: "map (\<lambda>(i, row). Frame_cell row) (iloc_from_1 (read_csv rows)) = map Inr frames" and
    r: "map (\<lambda>(i, row). RMSD_cell row) (iloc_from_1 (read_csv rows)) = map Inr rmsds"
    using assms(1) unfolding rmsd_df_def Let_def
    by (auto split: sum.splits dest!: astype_Inr_D)
  have mem: "(k, rows ! k) \<in> set (iloc_from_1 (read_csv rows))"
    using assms(2,3) by (auto simp: set_drop1_read_csv)
  have "Frame_cell (rows ! k) \<in> set (map (\<lambda>(i, row). Frame_cell row) (iloc_from_1 (read_csv rows)))"
    using mem by force
  then show "Frame_cell (rows ! k) = Inr (projr (Frame_cell (rows ! k)))"
    unfolding f by auto
  have "RMSD_cell (rows ! k) \<in> set (map (\<lambda>(i, row). RMSD_cell row) (iloc_from_1 (read_csv rows)))"
    using mem by force
  then show "RMSD_cell (rows ! k) = Inr (projr (RMSD_cell (rows ! k)))"
    unfolding r by auto
qed

lemma ex_rmsd_df: "rmsd_df ex_map ex_rows = Inr ex_df"
  by (simp add: rmsd_df_def ex_map_def ex_rows_def ex_df_def read_csv_def iloc_from_1_def
      add_features_def drop_sentinel_def add_frame_id_def lookup_features_def upt_conv_Cons del: upt_Suc)

lemma sint_5002: "sint (x :: int64) = 5002 \<Longrightarrow> x = 5002"
proof -
  assume "sint x = 5002"
  then have "word_of_int (sint x) = (word_of_int 5002 :: int64)" by simp
  then show ?thesis by simp
qed

lemma rmsd_df_mem:
  assumes "rmsd_df m rows = Inr df" "rec \<in> set df"
  shows "\<exists>k. 0 < k \<and> k < length rows \<and> rec = mk_record m (k, rows ! k) \<and> kept (k, rows ! k)"
  using assms(2) unfolding rmsd_df_Inr[OF assms(1)] set_map set_filter set_drop1_read_csv
  by auto

text \<open>
  C7: whatever the trajectory rows are, no row of the merged table has the frame
  identifier 5002, neither as the stored 64-bit value nor read as an integer.
\<close>

theorem sentinel_frame_excluded:
  assumes "rmsd_df m rows = Inr df"
  shows "\<forall>rec \<in> set df. Frame_ID rec \<noteq> 5002 \<and> sint (Frame_ID rec) \<noteq> 5002"
proof
  fix rec assume "rec \<in> set df"
  from rmsd_df_mem[OF assms this] obtain k where
    "rec = mk_record m (k, rows ! k)" "kept (k, rows ! k)" by blast
  then have "Frame_ID rec \<noteq> 5002" by (simp add: mk_record_def kept_def)
  then show "Frame_ID rec \<noteq> 5002 \<and> sint (Frame_ID rec) \<noteq> 5002"
    using sint_5002 by blast
qed

theorem sentinel_frame_excluded_witness:
  "rmsd_df ex_map ex_rows = Inr ex_df \<and> Frame_cell (ex_rows ! 5) = Inr 5001 \<and>
   list_all (\<lambda>rec. Frame_ID rec \<noteq> 5002 \<and> sint (Frame_ID rec) \<noteq> 5002) ex_df"
  using sentinel_frame_excluded[OF ex_rmsd_df] ex_rmsd_df by (simp add: ex_rows_def list_all_iff)


lemma length_iloc_read_csv: "length (iloc_from_1 (read_csv rows)) = length rows - 1"
  by (simp add: iloc_from_1_def read_csv_def)

text \<open>
  C10: the first parsed row of the trajectory is dropped before anything else is done
  with it: the merged table does not depend on that row (whatever its cells, also cells
  that would not convert), a trajectory of one row gives the empty table, and every
  merged row carries the index label of a later row.
\<close>

theorem first_row_discarded:
  "rmsd_df m (r # rs) = rmsd_df m (r' # rs) \<and>
   rmsd_df m [r] = Inr [] \<and>
   (rmsd_df m rows = Inr df \<longrightarrow>
      (\<forall>rec \<in> set df. 0 < Index rec \<and> Index rec < length rows) \<and> length df \<le> length rows - 1)"
proof (intro conjI impI)
  show "rmsd_df m (r # rs) = rmsd_df m (r' # rs)"
    unfolding rmsd_df_def by (simp only: read_csv_Cons)
  show "rmsd_df m [r] = Inr []"
    unfolding rmsd_df_def
    by (simp add: read_csv_Cons add_features_def drop_sentinel_def add_frame_id_def)
next
  assume a: "rmsd_df m rows = Inr df"
  show "\<forall>rec \<in> set df. 0 < Index rec \<and> Index rec < length rows"
  proof
    fix rec assume "rec \<in> set df"
    from rmsd_df_mem[OF a this] show "0 < Index rec \<and> Index rec < length rows"
      by (auto simp: mk_record_def)
  qed
  have "length df \<le> length (iloc_from_1 (read_csv rows))"
    unfolding rmsd_df_Inr[OF a] by simp
  then show "length df \<le> length rows - 1"
    by (simp only: length_iloc_read_csv)
qed

theorem first_row_discarded_witness:
  "rmsd_df ex_map ex_rows = Inr ex_df \<and>
   list_all (\<lambda>rec. 0 < Index rec \<and> Index rec < length ex_rows) ex_df \<and>
   length ex_df \<le> length ex_rows - 1"
  using first_row_discarded[of ex_map "hd ex_rows" "tl ex_rows" "hd ex_rows" ex_rows ex_df] ex_rmsd_df
  by (simp add: list_all_iff)

lemma sint_succ:
  fixes f :: int64
  assumes "sint f \<noteq> 2 ^ 63 - 1"
  shows "sint (f + 1) = sint f + 1"
proof -
  have "sint f < 2 ^ 63" "- (2 ^ 63) \<le> sint f"
    using sint_lt[of f] sint_ge[of f] by simp_all
  then have "- (2 ^ 63) \<le> sint f + 1" "sint f + 1 < 2 ^ 63"
    using assms by simp_all
  then have "signed_take_bit 63 (sint f + 1) = sint f + 1"
    by (rule signed_take_bit_int_eq_self)
  then show ?thesis by (simp add: sint_word_ariths)
qed

lemma sint_wrap:
  fixes f :: int64
  assumes "sint f = 2 ^ 63 - 1"
  shows "sint (f + 1) = - (2 ^ 63)"
proof -
  have "word_of_int (sint f) = f" by simp
  then have "f = 9223372036854775807" unfolding assms by simp
  then show ?thesis by simp
qed

text \<open>
  C6, as the code has it: every merged row comes from a trajectory row after the first,
  keeps its converted frame counter and RMSD, has \<open>Frame_ID = Frame + 1\<close> in the
  arithmetic of int64, and carries the signature that the mapping holds for that
  \<open>Frame_ID\<close> (\<open>''-''\<close> when it holds none). Read as integers the identifier is the
  counter plus one, and the signature is the one stored under the counter plus one, for
  every counter below \<open>2 ^ 63 - 1\<close>; at \<open>2 ^ 63 - 1\<close> the identifier is \<open>- 2 ^ 63\<close>.
  Every trajectory row after the first whose counter is \<open>f\<close> is merged under \<open>f + 1\<close>
  unless that is 5002.
\<close>

theorem frame_id_shift_on_join:
  assumes "rmsd_df m rows = Inr df"
  shows "(\<forall>rec \<in> set df.
            Frame_cell (rows ! Index rec) = Inr (Frame rec) \<and>
            RMSD_cell (rows ! Index rec) = Inr (RMSD rec) \<and>
            Frame_ID rec = Frame rec + 1 \<and>
            Features rec = (case m (sint (Frame_ID rec)) of None \<Rightarrow> ''-'' | Some s \<Rightarrow> s) \<and>
            (sint (Frame rec) \<noteq> 2 ^ 63 - 1 \<longrightarrow>
               sint (Frame_ID rec) = sint (Frame rec) + 1 \<and>
               Features rec = (case m (sint (Frame rec) + 1) of None \<Rightarrow> ''-'' | Some s \<Rightarrow> s)) \<and>
            (sint (Frame rec) = 2 ^ 63 - 1 \<longrightarrow> sint (Frame_ID rec) = - (2 ^ 63))) \<and>
         (\<forall>k f. 0 < k \<and> k < length rows \<and> Frame_cell (rows ! k) = Inr f \<and> f + 1 \<noteq> 5002 \<longrightarrow>
            (\<exists>rec \<in> set df. Index rec = k \<and> Frame rec = f \<and> Frame_ID rec = f + 1 \<and>
               Features rec = (case m (sint (f + 1)) of None \<Rightarrow> ''-'' | Some s \<Rightarrow> s)))"
proof (intro conjI ballI allI impI)
  fix rec assume "rec \<in> set df"
  from rmsd_df_mem[OF assms this] obtain k where
    k: "0 < k" "k < length rows" "rec = mk_record m (k, rows ! k)" by blast
  show id: "Frame_ID rec = Frame rec + 1" using k by (simp add: mk_record_def)
  show "Frame_cell (rows ! Index rec) = Inr (Frame rec)"
    using k rmsd_df_cells(1)[OF assms k(1,2)] by (simp add: mk_record_def)
  show "RMSD_cell (rows ! Index rec) = Inr (RMSD rec)"
    using k rmsd_df_cells(2)[OF assms k(1,2)] by (simp add: mk_record_def)
  show ft: "Features rec = (case m (sint (Frame_ID rec)) of None \<Rightarrow> ''-'' | Some s \<Rightarrow> s)"
    using k by (simp add: mk_record_def lookup_features_def)
  show "sint (Frame_ID rec) = sint (Frame rec) + 1" if "sint (Frame rec) \<noteq> 2 ^ 63 - 1"
    unfolding id by (rule sint_succ[OF that])
  show "Features rec = (case m (sint (Frame rec) + 1) of None \<Rightarrow> ''-'' | Some s \<Rightarrow> s)"
    if "sint (Frame rec) \<noteq> 2 ^ 63 - 1"
    using ft unfolding id sint_succ[OF that] .
  show "sint (Frame_ID rec) = - (2 ^ 63)" if "sint (Frame rec) = 2 ^ 63 - 1"
    unfolding id by (rule sint_wrap[OF that])
next
  fix k f
  assume h: "0 < k \<and> k < length rows \<and> Frame_cell (rows ! k) = Inr f \<and> f + 1 \<noteq> 5002"
  then have "(k, rows ! k) \<in> set (iloc_from_1 (read_csv rows))"
    by (auto simp: set_drop1_read_csv)
  moreover have "kept (k, rows ! k)" using h by (simp add: kept_def)
  ultimately have "mk_record m (k, rows ! k) \<in> set df"
    unfolding rmsd_df_Inr[OF assms] by simp
  then show "\<exists>rec \<in> set df. Index rec = k \<and> Frame rec = f \<and> Frame_ID rec = f + 1 \<and>
      Features rec = (case m (sint (f + 1)) of None \<Rightarrow> ''-'' | Some s \<Rightarrow> s)"
    using h by (intro bexI[of _ "mk_record m (k, rows ! k)"])
      (simp_all add: mk_record_def lookup_features_def)
qed

lemma max_rmsd_df: "rmsd_df Map.empty max_rows = Inr [max_rec]"
  by (simp add: rmsd_df_def max_rows_def max_rec_def read_csv_def iloc_from_1_def
      add_features_def drop_sentinel_def add_frame_id_def lookup_features_def upt_conv_Cons del: upt_Suc)

theorem frame_id_shift_on_join_witness:
  "rmsd_df ex_map ex_rows = Inr ex_df \<and>
   list_all (\<lambda>rec. Frame_ID rec = Frame rec + 1 \<and> sint (Frame rec) \<noteq> 2 ^ 63 - 1 \<and>
               sint (Frame_ID rec) = sint (Frame rec) + 1 \<and>
               Features rec = (case ex_map (sint (Frame rec) + 1) of None \<Rightarrow> ''-'' | Some s \<Rightarrow> s))
     ex_df \<and>
   Frame_cell (ex_rows ! 3) = Inr 2 \<and> ex_map 3 = Some ''ARHB'' \<and> ex_map 2 = Some ''HB'' \<and>
   (\<exists>rec \<in> set ex_df. Index rec = 3 \<and> Frame rec = 2 \<and> Frame_ID rec = 3 \<and> Features rec = ''ARHB'') \<and>
   rmsd_df Map.empty max_rows = Inr [max_rec] \<and>
   sint (Frame max_rec) = 2 ^ 63 - 1 \<and> sint (Frame_ID max_rec) = - (2 ^ 63)"
  using frame_id_shift_on_join[OF ex_rmsd_df] frame_id_shift_on_join[OF max_rmsd_df]
    ex_rmsd_df max_rmsd_df
  by (simp add: ex_rows_def ex_df_def ex_map_def max_rec_def list_all_iff)

text \<open>
  C6 as stated fails at the largest counter: the row with \<^verbatim>\<open>Frame\<close> \<open>2 ^ 63 - 1\<close> is merged
  under the identifier \<open>- 2 ^ 63\<close>, which is not the counter plus one.
\<close>

theorem frame_id_wraps_counterexample:
  "rmsd_df Map.empty max_rows = Inr [max_rec] \<and>
   Frame_cell (max_rows ! 1) = Inr (Frame max_rec) \<and>
   sint (Frame max_rec) = 9223372036854775807 \<and>
   sint (Frame_ID max_rec) = - 9223372036854775808 \<and>
   sint (Frame_ID max_rec) \<noteq> sint (Frame max_rec) + 1"
  using max_rmsd_df by (simp add: max_rows_def max_rec_def)

section \<open>Properties of the orderings\<close>

lemma take_rows_mset:
  assumes "distinct ix" "set ix = {0..<length df}"
  shows "mset (take_rows df ix) = mset df"
proof -
  have "mset ix = mset [0..<length df]"
    by (metis assms distinct_upt set_upt set_eq_iff_mset_eq_distinct)
  then have "mset (map (\<lambda>i. df ! i) ix) = mset (map (\<lambda>i. df ! i) [0..<length df])"
    by (metis mset_map)
  then show ?thesis by (simp add: take_rows_def map_nth)
qed

lemma sort_values_desc_mset:
  assumes "sorts_descending order"
  shows "mset (sort_values_desc order key df) = mset df"
  unfolding sort_values_desc_def
  using assms by (intro take_rows_mset) (simp_all add: sorts_descending_def)

lemma sort_values_desc_set:
  assumes "sorts_descending order"
  shows "set (sort_values_desc order key df) = set df"
  using sort_values_desc_mset[OF assms, of key df] by (metis set_mset_mset)

lemma sort_values_desc_length:
  assumes "sorts_descending order"
  shows "length (sort_values_desc order key df) = length df"
  using sort_values_desc_mset[OF assms, of key df] by (metis size_mset)

lemma sort_values_desc_sorted:
  assumes "sorts_descending order"
  shows "sorted_wrt (\<lambda>a b. key a \<ge> key b) (sort_values_desc order key df)"
proof -
  let ?ix = "order (map key df)"
  have ix: "set ?ix = {0..<length df}" and
    srt: "sorted_wrt (\<lambda>a b. a \<ge> b) (map (\<lambda>i. map key df ! i) ?ix)"
    using assms by (simp_all add: sorts_descending_def)
  have "map (\<lambda>i. map key df ! i) ?ix = map key (take_rows df ?ix)"
    using ix by (auto simp: take_rows_def)
  with srt have "sorted_wrt (\<lambda>a b. a \<ge> b) (map key (take_rows df ?ix))" by simp
  then show ?thesis by (simp add: sort_values_desc_def sorted_wrt_map)
qed

lemma zip_upt_key: "(k, i) \<in> set (zip ks [0..<length ks]) \<Longrightarrow> ks ! i = k \<and> i < length ks"
  by (auto simp: set_zip)

lemma stable_order_ok: "sorts_descending stable_order"
  unfolding sorts_descending_def
proof (intro allI conjI)
  fix ks :: "nat list"
  let ?zs = "zip ks [0..<length ks]"
  let ?s = "rev (sort_key fst (rev ?zs))"
  have "mset ?s = mset ?zs" by simp
  then have "mset (map snd ?s) = mset (map snd ?zs)" by (metis mset_map)
  moreover have "map snd ?zs = [0..<length ks]" by simp
  ultimately have m: "mset (map snd ?s) = mset [0..<length ks]" by (simp only:)
  show "distinct (stable_order ks)"
    unfolding stable_order_def using m by (metis distinct_upt mset_eq_imp_distinct_iff)
  show "set (stable_order ks) = {0..<length ks}"
    unfolding stable_order_def using m by (metis set_mset_mset set_upt)
  have mem: "\<forall>p \<in> set ?s. ks ! snd p = fst p"
    by (auto dest: zip_upt_key)
  then have eq: "map (\<lambda>i. ks ! i) (map snd ?s) = map fst ?s" by auto
  have srt: "sorted_wrt (\<lambda>a b. a \<ge> b) (map fst ?s)"
    by (simp add: rev_map[symmetric] sorted_wrt_rev del: rev_map)
  show "sorted_wrt (\<lambda>a b. a \<ge> b) (map (\<lambda>i. ks ! i) (stable_order ks))"
    unfolding stable_order_def eq by (rule srt)
qed

lemma reversing_order_ok: "sorts_descending reversing_order"
  unfolding sorts_descending_def
proof (intro allI conjI)
  fix ks :: "nat list"
  let ?zs = "zip ks [0..<length ks]"
  let ?s = "rev (sort_key fst ?zs)"
  have "mset ?s = mset ?zs" by simp
  then have "mset (map snd ?s) = mset (map snd ?zs)" by (metis mset_map)
  moreover have "map snd ?zs = [0..<length ks]" by simp
  ultimately have m: "mset (map snd ?s) = mset [0..<length ks]" by (simp only:)
  show "distinct (reversing_order ks)"
    unfolding reversing_order_def using m by (metis distinct_upt mset_eq_imp_distinct_iff)
  show "set (reversing_order ks) = {0..<length ks}"
    unfolding reversing_order_def using m by (metis set_mset_mset set_upt)
  have mem: "\<forall>p \<in> set ?s. ks ! snd p = fst p"
    by (auto dest: zip_upt_key)
  then have eq: "map (\<lambda>i. ks ! i) (map snd ?s) = map fst ?s" by auto
  have srt: "sorted_wrt (\<lambda>a b. a \<ge> b) (map fst ?s)"
    by (simp add: rev_map[symmetric] sorted_wrt_rev del: rev_map)
  show "sorted_wrt (\<lambda>a b. a \<ge> b) (map (\<lambda>i. ks ! i) (reversing_order ks))"
    unfolding reversing_order_def eq by (rule srt)
qed

section \<open>Properties of the hypothesis statistics\<close>

lemma unique_set: "set (unique xs) = set xs"
  by (simp add: unique_def)

lemma unique_distinct: "distinct (unique xs)"
  by (simp add: unique_def)

lemma sum_list_mset_cong:
  fixes f :: "'a \<Rightarrow> nat"
  assumes "mset xs = mset ys"
  shows "sum_list (map f xs) = sum_list (map f ys)"
proof -
  have "sum_mset (image_mset f (mset xs)) = sum_mset (image_mset f (mset ys))"
    using assms by simp
  then show ?thesis by (simp only: mset_map[symmetric] sum_mset_sum_list)
qed

lemma sum_count_unique: "sum_list (map (count_list xs) (unique xs)) = length xs"
proof -
  have "sum_list (map (count_list xs) (unique xs)) = sum (count_list xs) (set (unique xs))"
    by (rule sum_list_distinct_conv_sum_set[OF unique_distinct])
  also have "\<dots> = length xs"
    by (simp add: unique_set sum_count_set)
  finally show ?thesis .
qed

lemma value_counts_mset:
  assumes "sorts_descending order"
  shows "mset (value_counts order xs) = mset (map (\<lambda>s. (s, count_list xs s)) (unique xs))"
  unfolding value_counts_def by (rule sort_values_desc_mset[OF assms])

lemma value_counts_sum:
  assumes "sorts_descending order"
  shows "sum_list (map snd (value_counts order xs)) = length xs"
proof -
  have "sum_list (map snd (value_counts order xs))
      = sum_list (map snd (map (\<lambda>s. (s, count_list xs s)) (unique xs)))"
    by (rule sum_list_mset_cong[OF value_counts_mset[OF assms]])
  also have "\<dots> = sum_list (map (count_list xs) (unique xs))"
    by (simp add: comp_def)
  finally show ?thesis by (simp only: sum_count_unique)
qed

lemma count_matched:
  assumes "feat \<noteq> ''-''"
  shows "count_list (map Features (filter (\<lambda>r. Features r \<noteq> ''-'') df)) feat = length (members df feat)"
  using assms by (induction df) (auto simp: members_def)

lemma feature_counts_mem:
  assumes "sorts_descending order" "row \<in> set (feature_counts order df)"
  shows "fc_Features row \<noteq> ''-'' \<and> fc_Features row \<in> Features ` set df \<and>
         fc_Count row = length (members df (fc_Features row)) \<and>
         fc_Percent row = 100 * real (fc_Count row) / real (total_frames df) \<and>
         fc_Length row = length (fc_Features row)"
proof -
  let ?xs = "map Features (filter (\<lambda>r. Features r \<noteq> ''-'') df)"
  obtain feat n where fn: "(feat, n) \<in> set (value_counts order ?xs)" and
    row: "row = \<lparr>fc_Features = feat, fc_Count = n,
            fc_Percent = 100 * real n / real (total_frames df), fc_Length = length feat\<rparr>"
    using assms(2) unfolding feature_counts_def by auto
  have "set (value_counts order ?xs) = set (map (\<lambda>s. (s, count_list ?xs s)) (unique ?xs))"
    by (rule mset_eq_setD[OF value_counts_mset[OF assms(1)]])
  with fn have "feat \<in> set ?xs" and n: "n = count_list ?xs feat"
    by (auto simp: unique_set)
  then have f: "feat \<noteq> ''-''" "feat \<in> Features ` set df" by auto
  show ?thesis using f n row count_matched[OF f(1), of df] by simp
qed

lemma feature_counts_sum:
  assumes "sorts_descending order"
  shows "sum_list (map fc_Count (feature_counts order df)) = length (filter (\<lambda>r. Features r \<noteq> ''-'') df)"
proof -
  let ?xs = "map Features (filter (\<lambda>r. Features r \<noteq> ''-'') df)"
  have "map fc_Count (feature_counts order df) = map snd (value_counts order ?xs)"
    unfolding feature_counts_def by auto
  then show ?thesis using value_counts_sum[OF assms, of ?xs] by simp
qed

lemma feature_counts_distinct:
  assumes "sorts_descending order"
  shows "distinct (map fc_Features (feature_counts order df))"
proof -
  let ?xs = "map Features (filter (\<lambda>r. Features r \<noteq> ''-'') df)"
  have "map fc_Features (feature_counts order df) = map fst (value_counts order ?xs)"
    unfolding feature_counts_def by auto
  moreover have "mset (map fst (value_counts order ?xs)) = mset (unique ?xs)"
  proof -
    have "mset (map fst (value_counts order ?xs))
        = mset (map fst (map (\<lambda>s. (s, count_list ?xs s)) (unique ?xs)))"
      by (simp only: mset_map value_counts_mset[OF assms])
    moreover have "map fst (map (\<lambda>s. (s, count_list ?xs s)) (unique ?xs)) = unique ?xs"
      by (simp add: comp_def)
    ultimately show ?thesis by (simp only:)
  qed
  ultimately show ?thesis using unique_distinct[of ?xs] mset_eq_imp_distinct_iff by fastforce
qed














section \<open>Properties of the summary\<close>

lemma ex_feature_counts: "feature_counts stable_order ex_df = ex_counts"
  by code_simp

lemma ex_summary_records: "summary_records stable_order ex_df = Inr [ex_HB, ex_HBHB, ex_ARHB]"
  by code_simp

lemma ex_summary_stable: "summary_df stable_order stable_order ex_df = Inr [ex_HB, ex_HBHB, ex_ARHB]"
  by code_simp

lemma ex_summary_reversing: "summary_df stable_order reversing_order ex_df = Inr [ex_HB, ex_ARHB, ex_HBHB]"
  by code_simp

lemma collect_Inr_D: "collect f xs = Inr ys \<Longrightarrow> list_all2 (\<lambda>x y. f x = Inr y) xs ys"
  by (induction xs arbitrary: ys) (auto split: sum.splits)

lemma summarise_fields:
  assumes "summarise df row = Inr g"
  shows "s_Features g = fc_Features row" "Count g = fc_Count row"
    "Length g = length (fc_Features row)" "Percent g = py_round (fc_Percent row) 1"
  using assms unfolding summarise_def Let_def by (auto split: sum.splits)

lemma list_all2_map_eq: "list_all2 (\<lambda>x y. g y = h x) xs ys \<Longrightarrow> map g ys = map h xs"
  by (induction rule: list_all2_induct) auto

lemma summary_records_Count:
  assumes "summary_records vc df = Inr recs"
  shows "map Count recs = map fc_Count (feature_counts vc df)"
proof -
  have "collect (summarise df) (feature_counts vc df) = Inr recs"
    using assms unfolding summary_records_def by (auto split: if_splits)
  then have "list_all2 (\<lambda>row g. summarise df row = Inr g) (feature_counts vc df) recs"
    by (rule collect_Inr_D)
  then have "list_all2 (\<lambda>row g. Count g = fc_Count row) (feature_counts vc df) recs"
    by (rule list_all2_mono) (simp add: summarise_fields)
  then show ?thesis by (rule list_all2_map_eq)
qed

lemma summary_df_Inr:
  assumes "summary_df vc sv df = Inr groups"
  obtains recs where "summary_records vc df = Inr recs" "groups = sort_values_desc sv Count recs"
  using assms unfolding summary_df_def by (auto split: sum.splits)

lemma matched_unmatched: "length (filter (\<lambda>r. Features r \<noteq> ''-'') df) + length (unmatched df) = total_frames df"
  unfolding unmatched_def total_frames_def
  using sum_length_filter_compl[of "\<lambda>r. Features r \<noteq> ''-''" df] by simp

text \<open>
  C3: for every table of frame records, the counts of the groups and the number of
  unmatched rows (those whose signature is \<open>''-''\<close>) add up to \<open>total_frames\<close>, in
  \<^verbatim>\<open>feature_counts\<close> and in the sorted summary alike, whatever order the library sorts
  give to equal keys.
\<close>

theorem counts_and_unmatched_cover_all_frames:
  assumes "sorts_descending vc" "sorts_descending sv"
  shows "sum_list (map fc_Count (feature_counts vc df)) + length (unmatched df) = total_frames df \<and>
         (summary_df vc sv df = Inr groups \<longrightarrow>
            sum_list (map Count groups) + length (unmatched df) = total_frames df)"
proof (intro conjI impI)
  show fc: "sum_list (map fc_Count (feature_counts vc df)) + length (unmatched df) = total_frames df"
    by (simp only: feature_counts_sum[OF assms(1)] matched_unmatched)
  assume "summary_df vc sv df = Inr groups"
  then obtain recs where recs: "summary_records vc df = Inr recs"
    and g: "groups = sort_values_desc sv Count recs" by (rule summary_df_Inr)
  have "sum_list (map Count groups) = sum_list (map Count recs)"
    unfolding g by (rule sum_list_mset_cong[OF sort_values_desc_mset[OF assms(2)]])
  also have "\<dots> = sum_list (map fc_Count (feature_counts vc df))"
    by (simp only: summary_records_Count[OF recs])
  finally show "sum_list (map Count groups) + length (unmatched df) = total_frames df"
    using fc by simp
qed

theorem counts_and_unmatched_cover_all_frames_witness:
  "sum_list (map fc_Count ex_counts) = 4 \<and> length (unmatched ex_df) = 1 \<and> total_frames ex_df = 5 \<and>
   sum_list (map Count [ex_HB, ex_ARHB, ex_HBHB]) + length (unmatched ex_df) = total_frames ex_df"
  using counts_and_unmatched_cover_all_frames[OF stable_order_ok reversing_order_ok,
      of ex_df "[ex_HB, ex_ARHB, ex_HBHB]"]
    ex_summary_reversing ex_feature_counts
  by (simp add: ex_counts_def ex_df_def unmatched_def total_frames_def)









lemma list_all2_right_mem:
  "list_all2 P xs ys \<Longrightarrow> y \<in> set ys \<Longrightarrow> \<exists>x \<in> set xs. P x y"
  by (induction rule: list_all2_induct) auto

text \<open>
  C4: in \<^verbatim>\<open>feature_counts\<close> the \<^verbatim>\<open>Percent\<close> of every group is
  \<open>100 * Count / total_frames\<close>, where \<open>Count\<close> is the number of rows of the group and
  \<open>total_frames\<close> is the number of all rows of \<^verbatim>\<open>rmsd_df\<close>, the unmatched ones
  included. The summary carries the same quotient, rounded to one decimal (line 102).
\<close>

theorem percent_over_all_frames:
  assumes "sorts_descending vc"
  shows "(\<forall>row \<in> set (feature_counts vc df).
            fc_Percent row = 100 * real (fc_Count row) / real (total_frames df) \<and>
            fc_Count row = length (members df (fc_Features row))) \<and>
         total_frames df = length (filter (\<lambda>r. Features r \<noteq> ''-'') df) + length (unmatched df) \<and>
         (\<forall>sv groups. sorts_descending sv \<and> summary_df vc sv df = Inr groups \<longrightarrow>
            (\<forall>g \<in> set groups.
               Percent g = py_round (100 * real (Count g) / real (total_frames df)) 1))"
proof (intro conjI ballI allI impI)
  fix row assume r: "row \<in> set (feature_counts vc df)"
  show "fc_Percent row = 100 * real (fc_Count row) / real (total_frames df)"
    using feature_counts_mem[OF assms r] by simp
  show "fc_Count row = length (members df (fc_Features row))"
    using feature_counts_mem[OF assms r] by simp
next
  show "total_frames df = length (filter (\<lambda>r. Features r \<noteq> ''-'') df) + length (unmatched df)"
    by (simp only: matched_unmatched)
next
  fix sv groups g
  assume h: "sorts_descending sv \<and> summary_df vc sv df = Inr groups" and g: "g \<in> set groups"
  obtain recs where recs: "summary_records vc df = Inr recs"
    and gs: "groups = sort_values_desc sv Count recs" using h by (blast elim: summary_df_Inr)
  have "collect (summarise df) (feature_counts vc df) = Inr recs"
    using recs unfolding summary_records_def by (auto split: if_splits)
  then have la: "list_all2 (\<lambda>row g. summarise df row = Inr g) (feature_counts vc df) recs"
    by (rule collect_Inr_D)
  have gin: "g \<in> set recs" using g h unfolding gs by (simp add: sort_values_desc_set)
  obtain row where row: "row \<in> set (feature_counts vc df)" "summarise df row = Inr g"
    using list_all2_right_mem[OF la gin] by blast
  show "Percent g = py_round (100 * real (Count g) / real (total_frames df)) 1"
    using summarise_fields(2,4)[OF row(2)] feature_counts_mem[OF assms row(1)] by simp
qed

theorem percent_over_all_frames_witness:
  "feature_counts stable_order ex_df = ex_counts \<and> total_frames ex_df = 5 \<and>
   length (unmatched ex_df) = 1 \<and>
   list_all (\<lambda>row. fc_Percent row = 100 * real (fc_Count row) / 5) ex_counts \<and>
   fc_Percent (ex_counts ! 0) = 40 \<and> Percent ex_HB = py_round 40 1"
  using percent_over_all_frames[OF stable_order_ok, of ex_df] ex_feature_counts
    ex_summary_stable stable_order_ok
  by (simp add: list_all_iff ex_counts_def ex_df_def total_frames_def unmatched_def ex_HB_def py_round_def rint_def)





section \<open>Properties of the feature table loader\<close>

lemma ex_csv_files: "csv_files ex_dir ex_listing =
  [''PROCESSED_FILES/1_hypo_features_table.csv'', ''PROCESSED_FILES/2_hypo_features_table.csv'',
   ''PROCESSED_FILES/3_hypo_features_table.csv'']"
  by code_simp

lemma dup_csv_files: "csv_files ex_dir dup_listing =
  [''PROCESSED_FILES/01_hypo_features_table.csv'', ''PROCESSED_FILES/1_hypo_features_table.csv'']"
  by code_simp

lemma load_tables_printed:
  "printed (load_tables rd files st) = printed st @ map (warning rd) (filter (parse_failed rd) files)"
proof (induction files arbitrary: st)
  case Nil
  show ?case by simp
next
  case (Cons p files)
  show ?case
  proof (cases "re_search_table (basename p)")
    case None
    then show ?thesis using Cons by (simp add: parse_failed_def frame_key_def)
  next
    case (Some ds)
    then show ?thesis
      using Cons by (cases "rd p") (simp_all add: parse_failed_def frame_key_def warning_def)
  qed
qed

lemma load_tables_map:
  "frame_feature_map (load_tables rd files st) =
     frame_feature_map st ++
       map_of (rev (map (\<lambda>p. (the (frame_key p), signature_of rd p)) (filter (parsed_ok rd) files)))"
proof (induction files arbitrary: st)
  case Nil
  show ?case by simp
next
  case (Cons p files)
  show ?case
  proof (cases "re_search_table (basename p)")
    case None
    then show ?thesis using Cons by (simp add: parsed_ok_def frame_key_def)
  next
    case (Some ds)
    show ?thesis
    proof (cases "rd p")
      case (Inl e)
      then show ?thesis using Some Cons by (simp add: parsed_ok_def frame_key_def)
    next
      case (Inr raw)
      let ?k = "int_of_digits ds" and ?v = "features_clean raw"
      let ?L = "map (\<lambda>p. (the (frame_key p), signature_of rd p)) (filter (parsed_ok rd) files)"
      have ok: "parsed_ok rd p" "the (frame_key p) = ?k" "signature_of rd p = ?v"
        using Some Inr by (simp_all add: parsed_ok_def frame_key_def signature_of_def)
      let ?st = "st\<lparr>frame_feature_map := (frame_feature_map st)(?k \<mapsto> ?v)\<rparr>"
      have ih: "frame_feature_map (load_tables rd files ?st) = frame_feature_map ?st ++ map_of (rev ?L)"
        by (rule Cons.IH)
      have sel: "frame_feature_map ?st = (frame_feature_map st)(?k \<mapsto> ?v)"
        by (simp del: fun_upd_apply)
      have step: "load_tables rd (p # files) st = load_tables rd files ?st"
        using Some Inr by (simp del: fun_upd_apply)
      have "frame_feature_map (load_tables rd (p # files) st)
          = (frame_feature_map st)(?k \<mapsto> ?v) ++ map_of (rev ?L)"
        by (simp only: step ih sel)
      also have "\<dots> = frame_feature_map st ++ (Map.empty(?k \<mapsto> ?v) ++ map_of (rev ?L))"
        by (rule ext) (simp add: map_add_def split: option.splits)
      also have "Map.empty(?k \<mapsto> ?v) ++ map_of (rev ?L) = map_of (rev ((?k, ?v) # ?L))"
        by (simp add: map_of_append)
      finally show ?thesis using ok by simp
    qed
  qed
qed


lemma re_match_no_slash:
  assumes "re_match_table f"
  shows "CHR ''/'' \<notin> set f"
proof -
  have "set f = set (takeWhile is_digit f) \<union> set (dropWhile is_digit f)"
    by (metis set_append takeWhile_dropWhile_id)
  moreover have "CHR ''/'' \<notin> set (takeWhile is_digit f)"
  proof
    assume "CHR ''/'' \<in> set (takeWhile is_digit f)"
    then have "is_digit CHR ''/''" by (rule set_takeWhileD[THEN conjunct2])
    then show False by (simp add: is_digit_def)
  qed
  moreover have "CHR ''/'' \<notin> set (dropWhile is_digit f)"
    using assms unfolding re_match_table_def Let_def table_suffix_def by auto
  ultimately show ?thesis by simp
qed

lemma re_match_search:
  assumes "re_match_table f"
  shows "re_search_table f = Some (takeWhile is_digit f)"
proof -
  have ds: "takeWhile is_digit f \<noteq> []" and
    rest: "dropWhile is_digit f = table_suffix \<or> dropWhile is_digit f = table_suffix @ [CHR 0x0A]"
    using assms unfolding re_match_table_def Let_def by simp_all
  then obtain c cs where f: "f = c # cs" by (cases f) auto
  have "take (length table_suffix) (dropWhile is_digit f) = table_suffix"
    using rest by auto
  then have "match_here f = Some (takeWhile is_digit f)"
    using ds unfolding match_here_def Let_def by simp
  then show ?thesis unfolding f by simp
qed

lemma basename_append:
  assumes "CHR ''/'' \<notin> set f" "a = [] \<or> last a = CHR ''/''"
  shows "basename (a @ f) = f"
proof -
  have "takeWhile (\<lambda>c. c \<noteq> CHR ''/'') (rev a) = []"
    using assms(2) by (cases a rule: rev_cases) auto
  moreover have "takeWhile (\<lambda>c. c \<noteq> CHR ''/'') (rev f @ rev a)
      = rev f @ takeWhile (\<lambda>c. c \<noteq> CHR ''/'') (rev a)"
    by (rule takeWhile_append2) (use assms(1) in auto)
  ultimately show ?thesis
    unfolding basename_def by simp
qed

lemma basename_join:
  assumes "CHR ''/'' \<notin> set f"
  shows "basename (path_join d f) = f"
proof -
  have h: "\<not> (f \<noteq> [] \<and> hd f = CHR ''/'')" using assms by (cases f) auto
  show ?thesis
  proof (cases "d = [] \<or> last d = CHR ''/''")
    case True
    then show ?thesis using h basename_append[OF assms True] by (auto simp: path_join_def)
  next
    case False
    have "basename ((d @ ''/'') @ f) = f" by (rule basename_append[OF assms]) simp
    then show ?thesis using h False by (auto simp: path_join_def)
  qed
qed

lemma csv_files_frame_key:
  assumes "p \<in> set (csv_files d listing)"
  shows "frame_key p \<noteq> None"
proof -
  obtain f where f: "re_match_table f" "p = path_join d f"
    using assms unfolding csv_files_def by auto
  show ?thesis
    unfolding frame_key_def f(2) basename_join[OF re_match_no_slash[OF f(1)]] re_match_search[OF f(1)]
    by simp
qed


lemma csv_files_ok:
  "filter (parsed_ok rd) (csv_files d listing) = filter (\<lambda>p. \<not> isl (rd p)) (csv_files d listing)"
  by (rule filter_cong) (simp_all add: parsed_ok_def csv_files_frame_key)

lemma csv_files_failed:
  "filter (parse_failed rd) (csv_files d listing) = filter (\<lambda>p. isl (rd p)) (csv_files d listing)"
  by (rule filter_cong) (simp_all add: parse_failed_def csv_files_frame_key)

text \<open>
  C8, as the code has it. The loop over \<^verbatim>\<open>csv_files\<close> always runs to its end. Every source
  whose parsing raises adds one line to the output, made of its path and the text of the
  exception, and nothing to the dictionary; every other source is stored under the
  integer read from its name. The dictionary therefore has one entry for each distinct
  frame index among the sources that parsed, holding the signature of one of them, and one
  entry for each such source when their frame indices differ from one another.
\<close>

theorem bad_source_is_skipped_with_warning:
  "let files = csv_files csv_dir listing;
       st = load_tables rd files loader_init;
       fm = frame_feature_map st;
       ok = filter (\<lambda>p. \<not> isl (rd p)) files
   in printed st = map (warning rd) (filter (\<lambda>p. isl (rd p)) files) \<and>
      dom fm = (\<lambda>p. the (frame_key p)) ` set ok \<and>
      (\<forall>k s. fm k = Some s \<longrightarrow> (\<exists>p \<in> set ok. frame_key p = Some k \<and> s = signature_of rd p)) \<and>
      card (dom fm) \<le> length ok \<and>
      (distinct (map frame_key ok) \<longrightarrow>
         card (dom fm) = length ok \<and>
         (\<forall>p \<in> set ok. fm (the (frame_key p)) = Some (signature_of rd p)))"
proof -
  define files where "files = csv_files csv_dir listing"
  define ok where "ok = filter (\<lambda>p. \<not> isl (rd p)) files"
  define fm where "fm = frame_feature_map (load_tables rd files loader_init)"
  define L where "L = map (\<lambda>p. (the (frame_key p), signature_of rd p)) ok"
  have key: "\<And>p. p \<in> set ok \<Longrightarrow> frame_key p = Some (the (frame_key p))"
    using csv_files_frame_key by (auto simp: ok_def files_def)
  have fm: "fm = map_of (rev L)"
    unfolding fm_def L_def ok_def files_def load_tables_map csv_files_ok
    by (simp add: loader_init_def)
  have p: "printed (load_tables rd files loader_init) = map (warning rd) (filter (\<lambda>p. isl (rd p)) files)"
    unfolding files_def load_tables_printed csv_files_failed by (simp add: loader_init_def)
  have d: "dom fm = (\<lambda>p. the (frame_key p)) ` set ok"
    unfolding fm dom_map_of_conv_image_fst by (auto simp: L_def image_iff)
  have v: "\<exists>p \<in> set ok. frame_key p = Some k \<and> s = signature_of rd p" if "fm k = Some s" for k s
  proof -
    have "(k, s) \<in> set (rev L)" using that unfolding fm by (rule map_of_SomeD)
    then obtain p where "p \<in> set ok" "k = the (frame_key p)" "s = signature_of rd p"
      by (auto simp: L_def)
    then show ?thesis using key by auto
  qed
  have c: "card (dom fm) \<le> length ok"
    unfolding d by (metis card_image_le card_length le_trans List.finite_set)
  have e: "card (dom fm) = length ok \<and> (\<forall>p \<in> set ok. fm (the (frame_key p)) = Some (signature_of rd p))"
    if dist: "distinct (map frame_key ok)"
  proof
    have inj: "inj_on frame_key (set ok)" and dok: "distinct ok"
      using dist by (simp_all add: distinct_map)
    have "inj_on (\<lambda>p. the (frame_key p)) (set ok)"
      by (rule inj_onI) (metis inj inj_onD key)
    then have dk: "distinct (map (\<lambda>p. the (frame_key p)) ok)"
      using dok by (simp add: distinct_map)
    then show "card (dom fm) = length ok"
      unfolding d by (metis distinct_card length_map set_map)
    have dl: "distinct (map fst (rev L))" using dk by (simp add: L_def comp_def rev_map[symmetric])
    show "\<forall>p \<in> set ok. fm (the (frame_key p)) = Some (signature_of rd p)"
    proof
      fix p assume "p \<in> set ok"
      then have "(the (frame_key p), signature_of rd p) \<in> set (rev L)" by (auto simp: L_def)
      then show "fm (the (frame_key p)) = Some (signature_of rd p)"
        unfolding fm by (rule map_of_is_SomeI[OF dl])
    qed
  qed
  show ?thesis
    unfolding Let_def files_def[symmetric] ok_def[symmetric] fm_def[symmetric]
    using p d v c e by blast
qed


lemma ex_keys: "map frame_key (csv_files ex_dir ex_listing) = [Some 1, Some 2, Some 3]"
  by code_simp

lemma ex_load:
  "printed (load_tables ex_read (csv_files ex_dir ex_listing) loader_init) =
     [''Error reading PROCESSED_FILES/2_hypo_features_table.csv: No columns to parse from file''] \<and>
   map (frame_feature_map (load_tables ex_read (csv_files ex_dir ex_listing) loader_init)) [1, 2, 3] =
     [Some ''HBHB'', None, Some ''ARHB'']"
  by code_simp

lemma ex_ok: "filter (\<lambda>p. \<not> isl (ex_read p)) (csv_files ex_dir ex_listing) =
   [''PROCESSED_FILES/1_hypo_features_table.csv'', ''PROCESSED_FILES/3_hypo_features_table.csv'']"
  by code_simp

lemma ex_ok_keys: "map frame_key [''PROCESSED_FILES/1_hypo_features_table.csv'',
    ''PROCESSED_FILES/3_hypo_features_table.csv''] = [Some 1, Some 3]"
  by code_simp

theorem bad_source_is_skipped_with_warning_witness:
  "isl (ex_read ''PROCESSED_FILES/2_hypo_features_table.csv'') \<and>
   printed (load_tables ex_read (csv_files ex_dir ex_listing) loader_init) =
     [''Error reading PROCESSED_FILES/2_hypo_features_table.csv: No columns to parse from file''] \<and>
   dom (frame_feature_map (load_tables ex_read (csv_files ex_dir ex_listing) loader_init)) = {1, 3} \<and>
   card (dom (frame_feature_map (load_tables ex_read (csv_files ex_dir ex_listing) loader_init))) = 2 \<and>
   frame_feature_map (load_tables ex_read (csv_files ex_dir ex_listing) loader_init) 3 = Some ''ARHB''"
  using bad_source_is_skipped_with_warning[of ex_dir ex_listing ex_read] ex_load ex_ok_keys
  unfolding Let_def ex_ok
  by (simp add: ex_read_def)

lemma dup_map: "frame_feature_map (load_tables dup_read (csv_files ex_dir dup_listing) loader_init) = [1 \<mapsto> ''HB'']"
  unfolding dup_csv_files
  by (simp add: loader_init_def dup_read_def basename_def match_here_def is_digit_def table_suffix_def
      int_of_digits_def features_clean_def strip_digits_def)

text \<open>
  C8 as stated fails where two names give the same integer: \<^verbatim>\<open>01_hypo_features_table.csv\<close>
  and \<^verbatim>\<open>1_hypo_features_table.csv\<close> both parse, nothing is printed, and the dictionary
  has the single key 1.
\<close>

theorem one_entry_per_source_counterexample:
  "csv_files ex_dir dup_listing =
     [''PROCESSED_FILES/01_hypo_features_table.csv'', ''PROCESSED_FILES/1_hypo_features_table.csv''] \<and>
   dup_read ''PROCESSED_FILES/01_hypo_features_table.csv'' = Inr [''HB1''] \<and>
   dup_read ''PROCESSED_FILES/1_hypo_features_table.csv'' = Inr [''HB1''] \<and>
   printed (load_tables dup_read (csv_files ex_dir dup_listing) loader_init) = [] \<and>
   length (filter (\<lambda>p. \<not> isl (dup_read p)) (csv_files ex_dir dup_listing)) = 2 \<and>
   dom (frame_feature_map (load_tables dup_read (csv_files ex_dir dup_listing) loader_init)) = {1} \<and>
   card (dom (frame_feature_map (load_tables dup_read (csv_files ex_dir dup_listing) loader_init))) = 1"
proof -
  have "printed (load_tables dup_read (csv_files ex_dir dup_listing) loader_init) = []"
    by code_simp
  then show ?thesis
    unfolding dup_map unfolding dup_csv_files by (simp add: dup_read_def)
qed

section \<open>Properties of ranking and selection\<close>

lemma nlargest_props:
  "set (nlargest n key df) \<subseteq> set df" "length (nlargest n key df) \<le> n"
  "sorted_wrt (\<lambda>a b. key b \<le> key a) (nlargest n key df)"
proof -
  show "set (nlargest n key df) \<subseteq> set df"
    unfolding nlargest_def using set_take_subset[of n "sort_key (\<lambda>r. - key r) df"] by simp
  show "length (nlargest n key df) \<le> n" by (simp add: nlargest_def)
  have "sorted (map (\<lambda>r. - key r) (sort_key (\<lambda>r. - key r) df))" by (rule sorted_sort_key)
  then have "sorted_wrt (\<lambda>a b. key b \<le> key a) (sort_key (\<lambda>r. - key r) df)"
    by (simp add: sorted_map)
  then show "sorted_wrt (\<lambda>a b. key b \<le> key a) (nlargest n key df)"
    unfolding nlargest_def by (rule sorted_wrt_take)
qed

text \<open>
  C9: the rows selected for the charts are rows of the summary whose \<^verbatim>\<open>Length\<close> is not
  excluded, there are at most \<open>n\<close> of them, and they are in descending order of
  \<^verbatim>\<open>Percent\<close> (rows with equal \<^verbatim>\<open>Percent\<close> can follow one another). The script runs this
  with \<open>n = 10\<close> and the excluded lengths 1, 2, 3.
\<close>

theorem visualization_selection:
  "(\<forall>g \<in> set (plot_df_of n excluded summary). Length g \<notin> set excluded \<and> g \<in> set summary) \<and>
   length (plot_df_of n excluded summary) \<le> n \<and>
   sorted_wrt (\<lambda>a b. Percent b \<le> Percent a) (plot_df_of n excluded summary) \<and>
   plot_df summary = plot_df_of 10 [1, 2, 3] summary"
proof (intro conjI ballI)
  fix g assume "g \<in> set (plot_df_of n excluded summary)"
  then have "g \<in> set (filter (\<lambda>r. Length r \<notin> set excluded) summary)"
    unfolding plot_df_of_def by (rule subsetD[OF nlargest_props(1)])
  then show "Length g \<notin> set excluded" "g \<in> set summary" by simp_all
next
  show "length (plot_df_of n excluded summary) \<le> n"
    unfolding plot_df_of_def by (rule nlargest_props(2))
  show "sorted_wrt (\<lambda>a b. Percent b \<le> Percent a) (plot_df_of n excluded summary)"
    unfolding plot_df_of_def by (rule nlargest_props(3))
  show "plot_df summary = plot_df_of 10 [1, 2, 3] summary"
    by (simp add: plot_df_def top_n_def exclude_lengths_def)
qed

lemma ex_plot: "plot_df [ex_HB, ex_HBHB, ex_ARHB] = [ex_HBHB, ex_ARHB]"
  by code_simp

theorem visualization_selection_witness:
  "plot_df [ex_HB, ex_HBHB, ex_ARHB] = [ex_HBHB, ex_ARHB] \<and> Length ex_HB = 2 \<and>
   list_all (\<lambda>g. Length g \<notin> set [1, 2, 3]) (plot_df [ex_HB, ex_HBHB, ex_ARHB]) \<and>
   length (plot_df [ex_HB, ex_HBHB, ex_ARHB]) \<le> 10 \<and>
   sorted_wrt (\<lambda>a b. Percent b \<le> Percent a) (plot_df [ex_HB, ex_HBHB, ex_ARHB])"
  using visualization_selection[of 10 "[1, 2, 3]" "[ex_HB, ex_HBHB, ex_ARHB]"] ex_plot
  by (simp add: list_all_iff ex_HB_def)

lemma summary_records_sorted:
  assumes "sorts_descending vc" "summary_records vc df = Inr recs"
  shows "sorted_wrt (\<lambda>a b. Count b \<le> Count a) recs"
proof -
  let ?xs = "map Features (filter (\<lambda>r. Features r \<noteq> ''-'') df)"
  have "map Count recs = map snd (value_counts vc ?xs)"
    unfolding summary_records_Count[OF assms(2)] feature_counts_def by auto
  moreover have "sorted_wrt (\<lambda>a b. snd b \<le> snd a) (value_counts vc ?xs)"
    unfolding value_counts_def by (rule sort_values_desc_sorted[OF assms(1)])
  ultimately have "sorted_wrt (\<lambda>a b. b \<le> a) (map Count recs)"
    by (simp add: sorted_wrt_map)
  then show ?thesis by (simp add: sorted_wrt_map)
qed

text \<open>
  An order that keeps equal keys in place leaves the rows as \<^verbatim>\<open>summary_records\<close> has them:
  with a stable sort the summary would be in the order of \<^verbatim>\<open>feature_counts\<close>.
\<close>

lemma stable_order_sorted_id:
  assumes "sorted_wrt (\<lambda>a b. b \<le> a) ks"
  shows "stable_order ks = [0..<length ks]"
proof -
  let ?zs = "zip ks [0..<length ks]"
  have "sorted (rev ks)" using assms by (simp add: sorted_wrt_rev)
  then have "sorted (map fst (rev ?zs))" by (simp add: rev_map[symmetric] del: rev_map)
  then have "sort_key fst (rev ?zs) = rev ?zs" by (rule sort_key_id_if_sorted)
  then show ?thesis by (simp add: stable_order_def)
qed

lemma sort_values_desc_stable_id:
  assumes "sorted_wrt (\<lambda>a b. key b \<le> key a) df"
  shows "sort_values_desc stable_order key df = df"
proof -
  have "sorted_wrt (\<lambda>a b. b \<le> a) (map key df)" using assms by (simp add: sorted_wrt_map)
  then have "stable_order (map key df) = [0..<length df]"
    using stable_order_sorted_id[of "map key df"] by simp
  then show ?thesis by (simp add: sort_values_desc_def take_rows_def map_nth)
qed

lemma summary_df_stable_order:
  assumes "sorts_descending vc" "summary_records vc df = Inr recs"
  shows "summary_df vc stable_order df = Inr recs"
  unfolding summary_df_def assms(2)
  by (simp add: sort_values_desc_stable_id[OF summary_records_sorted[OF assms]])

text \<open>
  Line 104 leaves the order of rows of equal \<^verbatim>\<open>Count\<close> to the sort of the library. What
  does not depend on it: the summary holds the rows of \<^verbatim>\<open>summary_records\<close>, in descending
  order of \<^verbatim>\<open>Count\<close>, and the rows were in such an order before the sort already.
\<close>

lemma summary_df_sorted_perm:
  assumes "sorts_descending vc" "sorts_descending sv" "summary_df vc sv df = Inr groups"
  shows "\<exists>recs. summary_records vc df = Inr recs \<and> mset groups = mset recs \<and>
           sorted_wrt (\<lambda>a b. Count b \<le> Count a) groups \<and>
           sorted_wrt (\<lambda>a b. Count b \<le> Count a) recs"
proof -
  obtain recs where recs: "summary_records vc df = Inr recs"
    and g: "groups = sort_values_desc sv Count recs" using assms(3) by (rule summary_df_Inr)
  have "mset groups = mset recs" unfolding g by (rule sort_values_desc_mset[OF assms(2)])
  moreover have "sorted_wrt (\<lambda>a b. Count b \<le> Count a) groups"
    unfolding g by (rule sort_values_desc_sorted[OF assms(2)])
  ultimately show ?thesis using recs summary_records_sorted[OF assms(1) recs] by blast
qed

end
